theory Spec2Isabelle
  imports Complex_Main
begin

section \<open>The rate limit filter pipeline\<close>

text \<open>
  A shallow embedding of \<^verbatim>\<open>examples/filters/rate_limit_filter_pipeline.py\<close>:
  the class \<^verbatim>\<open>Pipeline\<close> with its \<^verbatim>\<open>Valves\<close>, and the methods
  \<^verbatim>\<open>prune_requests\<close>, \<^verbatim>\<open>log_request\<close>, \<^verbatim>\<open>rate_limited\<close>,
  \<^verbatim>\<open>is_weekday\<close>, \<^verbatim>\<open>is_exempt\<close> and \<^verbatim>\<open>inlet\<close>.

  Conventions of the embedding.
  \<^item> A method takes the object \<open>self\<close> and returns it updated: the result of a method
    that can raise is a pair of its outcome (\<open>Inl\<close> the exception, \<open>Inr\<close> the returned
    value) and the object as the method left it, since an exception does not undo the
    assignments made before it.
  \<^item> The readings of \<^verbatim>\<open>time.time()\<close> and \<^verbatim>\<open>datetime.now().weekday()\<close> are the
    fields of an environment \<open>env\<close>. One call of \<^verbatim>\<open>inlet\<close> is evaluated at one
    instant: every reading of the clock within the call gives \<open>now env\<close>. Instants are
    real numbers of seconds (the source has floats; no property below depends on
    rounding).
  \<^item> The values of a user record's fields are \<^verbatim>\<open>None\<close> or a \<^verbatim>\<open>str\<close>; a record
    is an association list read with \<open>map_of\<close>, a Python \<^verbatim>\<open>dict\<close> with the keys
    in some order. Strings are ASCII.
  \<^item> \<^verbatim>\<open>print\<close> and the \<^verbatim>\<open>type\<close> and \<^verbatim>\<open>name\<close> attributes play no part in
    any decision and are left out.
\<close>

subsection \<open>Python values and built-ins\<close>

datatype pyval = PNone | PStr string

datatype error = RateLimitExceeded | TypeError | AttributeError

type_synonym user = "(string \<times> pyval) list"

definition dict_get :: "('k \<times> 'v) list \<Rightarrow> 'k \<Rightarrow> 'v \<Rightarrow> 'v" where
  \<comment> \<open>\<^verbatim>\<open>d.get(k, dflt)\<close>\<close>
  "dict_get d k dflt = (case map_of d k of None \<Rightarrow> dflt | Some x \<Rightarrow> x)"

definition str_or_empty :: "pyval \<Rightarrow> string" where
  \<comment> \<open>\<^verbatim>\<open>x or ""\<close> for \<open>x\<close> that is \<^verbatim>\<open>None\<close> or a string: both \<^verbatim>\<open>None\<close> and
      \<^verbatim>\<open>""\<close> are falsy\<close>
  "str_or_empty x = (case x of PNone \<Rightarrow> [] | PStr s \<Rightarrow> s)"

definition is_space :: "char \<Rightarrow> bool" where
  \<comment> \<open>the ASCII characters \<^verbatim>\<open>str.isspace\<close> accepts: tab, line feed, vertical tab,
      form feed, carriage return, the four separators 0x1C to 0x1F, and the space\<close>
  "is_space c = (c \<in> set [CHR 0x09, CHR 0x0A, CHR 0x0B, CHR 0x0C, CHR 0x0D,
                            CHR 0x1C, CHR 0x1D, CHR 0x1E, CHR 0x1F, CHR 0x20])"

definition strip :: "string \<Rightarrow> string" where
  \<comment> \<open>\<^verbatim>\<open>s.strip()\<close>\<close>
  "strip s = rev (dropWhile is_space (rev (dropWhile is_space s)))"

definition lower_char :: "char \<Rightarrow> char" where
  "lower_char c =
     (case map_of (zip ''ABCDEFGHIJKLMNOPQRSTUVWXYZ'' ''abcdefghijklmnopqrstuvwxyz'') c of
        None \<Rightarrow> c
      | Some d \<Rightarrow> d)"

definition lower :: "string \<Rightarrow> string" where
  \<comment> \<open>\<^verbatim>\<open>s.lower()\<close>\<close>
  "lower s = map lower_char s"

subsection \<open>The object and its environment\<close>

record valves =
  pipelines :: "string list"
  priority :: int
  requests_per_minute :: "int option"
  requests_per_hour :: "int option"
  sliding_window_limit :: "int option"
  sliding_window_minutes :: "int option"
  exempt_usernames :: "string list"
  exempt_emails :: "string list"
  exempt_user_ids :: "string list"
  weekdays_only :: bool

record pipeline =
  valves :: valves
  user_requests :: "pyval \<rightharpoonup> real list"
    \<comment> \<open>user id to the timestamps of its requests; a key is whatever \<^verbatim>\<open>user["id"]\<close>
        held, \<^verbatim>\<open>None\<close> included\<close>

record env =
  now :: real  \<comment> \<open>\<^verbatim>\<open>time.time()\<close>\<close>
  weekday :: nat  \<comment> \<open>\<^verbatim>\<open>datetime.now().weekday()\<close>: Monday is 0, Sunday is 6\<close>

subsection \<open>Pruning\<close>

definition keep_request :: "valves \<Rightarrow> real \<Rightarrow> real \<Rightarrow> error + bool" where
  \<comment> \<open>the condition of the comprehension in \<^verbatim>\<open>prune_requests\<close>, with the short
      circuit of \<^verbatim>\<open>and\<close> and \<^verbatim>\<open>or\<close>: the product
      \<^verbatim>\<open>sliding_window_minutes * 60\<close> is evaluated only when the two disjuncts before
      it are false and \<^verbatim>\<open>sliding_window_limit\<close> is set, and raises TypeError when
      \<^verbatim>\<open>sliding_window_minutes\<close> is \<^verbatim>\<open>None\<close>\<close>
  "keep_request v t req =
     (if requests_per_minute v \<noteq> None \<and> t - req < 60 then Inr True
      else if requests_per_hour v \<noteq> None \<and> t - req < 3600 then Inr True
      else if sliding_window_limit v \<noteq> None then
        (case sliding_window_minutes v of
           None \<Rightarrow> Inl TypeError
         | Some m \<Rightarrow> Inr (t - req < real_of_int (m * 60)))
      else Inr False)"

fun prune_list :: "valves \<Rightarrow> real \<Rightarrow> real list \<Rightarrow> error + real list" where
  \<comment> \<open>the list comprehension: the first exception ends it\<close>
  "prune_list v t [] = Inr []"
| "prune_list v t (req # reqs) =
     (case keep_request v t req of
        Inl e \<Rightarrow> Inl e
      | Inr k \<Rightarrow>
          (case prune_list v t reqs of
             Inl e \<Rightarrow> Inl e
           | Inr kept \<Rightarrow> Inr (if k then req # kept else kept)))"

definition prune_requests :: "pipeline \<Rightarrow> env \<Rightarrow> pyval \<Rightarrow> (error + unit) \<times> pipeline" where
  "prune_requests self e user_id =
     (case user_requests self user_id of
        None \<Rightarrow> (Inr (), self)
      | Some reqs \<Rightarrow>
          (case prune_list (valves self) (now e) reqs of
             Inl err \<Rightarrow> (Inl err, self)
           | Inr kept \<Rightarrow>
               (Inr (), self\<lparr>user_requests := (user_requests self)(user_id \<mapsto> kept)\<rparr>)))"

subsection \<open>Logging and counting\<close>

definition requests_of :: "pipeline \<Rightarrow> pyval \<Rightarrow> real list" where
  \<comment> \<open>\<^verbatim>\<open>self.user_requests.get(user_id, [])\<close>\<close>
  "requests_of self user_id =
     (case user_requests self user_id of None \<Rightarrow> [] | Some reqs \<Rightarrow> reqs)"

definition log_request :: "pipeline \<Rightarrow> env \<Rightarrow> pyval \<Rightarrow> pipeline" where
  "log_request self e user_id =
     self\<lparr>user_requests := (user_requests self)(user_id \<mapsto> requests_of self user_id @ [now e])\<rparr>"

definition count_within :: "real \<Rightarrow> real \<Rightarrow> real list \<Rightarrow> int" where
  \<comment> \<open>\<^verbatim>\<open>sum(1 for req in user_reqs if time.time() - req < w)\<close>\<close>
  "count_within t w reqs = int (length (filter (\<lambda>req. t - req < w) reqs))"

definition limits_reached :: "valves \<Rightarrow> real \<Rightarrow> real list \<Rightarrow> bool" where
  \<comment> \<open>the three checks of \<^verbatim>\<open>rate_limited\<close> on the pruned list, in the source's order\<close>
  "limits_reached v t user_reqs =
     (if (case requests_per_minute v of
            None \<Rightarrow> False
          | Some n \<Rightarrow> count_within t 60 user_reqs \<ge> n) then True
      else if (case requests_per_hour v of
            None \<Rightarrow> False
          | Some n \<Rightarrow> count_within t 3600 user_reqs \<ge> n) then True
      else if (case sliding_window_limit v of
            None \<Rightarrow> False
          | Some n \<Rightarrow> int (length user_reqs) \<ge> n) then True
      else False)"

definition rate_limited :: "pipeline \<Rightarrow> env \<Rightarrow> pyval \<Rightarrow> (error + bool) \<times> pipeline" where
  "rate_limited self e user_id =
     (case prune_requests self e user_id of
        (Inl err, self') \<Rightarrow> (Inl err, self')
      | (Inr _, self') \<Rightarrow>
          (Inr (limits_reached (valves self') (now e) (requests_of self' user_id)), self'))"

subsection \<open>Weekdays and exemptions\<close>

definition is_weekday :: "env \<Rightarrow> bool" where
  "is_weekday e = (weekday e < 5)"

definition is_exempt :: "pipeline \<Rightarrow> user option \<Rightarrow> bool" where
  "is_exempt self user =
     (case user of
        None \<Rightarrow> False
      | Some u \<Rightarrow>
          if u = [] then False
          else if exempt_usernames (valves self) \<noteq> [] \<and>
                  lower (strip (str_or_empty (dict_get u ''username'' PNone)))
                    \<in> set (exempt_usernames (valves self)) then True
          else if exempt_emails (valves self) \<noteq> [] \<and>
                  lower (strip (str_or_empty (dict_get u ''email'' PNone)))
                    \<in> set (exempt_emails (valves self)) then True
          else if exempt_user_ids (valves self) \<noteq> [] \<and>
                  (case dict_get u ''id'' PNone of
                     PNone \<Rightarrow> False
                   | PStr uid \<Rightarrow> strip uid \<in> set (exempt_user_ids (valves self))) then True
          else False)"

subsection \<open>The filter\<close>

definition user_id_of :: "user \<Rightarrow> pyval" where
  \<comment> \<open>\<^verbatim>\<open>user["id"] if user and "id" in user else "default_user"\<close>\<close>
  "user_id_of u = (case map_of u ''id'' of None \<Rightarrow> PStr ''default_user'' | Some x \<Rightarrow> x)"

definition inlet :: "pipeline \<Rightarrow> env \<Rightarrow> 'b \<Rightarrow> user option \<Rightarrow> (error + 'b) \<times> pipeline" where
  \<comment> \<open>\<^verbatim>\<open>user.get\<close> on \<^verbatim>\<open>None\<close> raises AttributeError\<close>
  "inlet self e body user =
     (case user of
        None \<Rightarrow> (Inl AttributeError, self)
      | Some u \<Rightarrow>
          if dict_get u ''role'' (PStr ''admin'') = PStr ''user'' then
            let user_id = user_id_of u in
            if \<not> is_exempt self user then
              if \<not> weekdays_only (valves self) \<or> is_weekday e then
                (case rate_limited self e user_id of
                   (Inl err, self') \<Rightarrow> (Inl err, self')
                 | (Inr True, self') \<Rightarrow> (Inl RateLimitExceeded, self')
                 | (Inr False, self') \<Rightarrow> (Inr body, log_request self' e user_id))
              else (Inr body, self)
            else (Inr body, self)
          else (Inr body, self))"

subsection \<open>The object as the constructor leaves it\<close>

definition init_valves :: valves where
  \<comment> \<open>the valves of \<^verbatim>\<open>__init__\<close> when no \<^verbatim>\<open>RATE_LIMIT_*\<close> variable is set\<close>
  "init_valves =
     \<lparr>pipelines = [''*''], priority = 0,
      requests_per_minute = Some 10, requests_per_hour = Some 1000,
      sliding_window_limit = Some 100, sliding_window_minutes = Some 15,
      exempt_usernames = [], exempt_emails = [], exempt_user_ids = [],
      weekdays_only = True\<rparr>"

definition init :: pipeline where
  "init = \<lparr>valves = init_valves, user_requests = Map.empty\<rparr>"

section \<open>The notions of the specification\<close>

text \<open>
  The specification speaks of three rules, each active or not, each with a window, and
  of the maximum lookback of the active rules. These definitions follow its words; the
  theorems below compare them with the code.
\<close>

datatype rate_rule = PerMinute | PerHour | SlidingWindow

definition spec_rule_limit :: "valves \<Rightarrow> rate_rule \<Rightarrow> int option" where
  \<comment> \<open>the threshold of an active rule, \<open>None\<close> for an inactive one; the sliding window
      is active when both of its parameters are set\<close>
  "spec_rule_limit v r =
     (case r of
        PerMinute \<Rightarrow> requests_per_minute v
      | PerHour \<Rightarrow> requests_per_hour v
      | SlidingWindow \<Rightarrow>
          (if sliding_window_minutes v = None then None else sliding_window_limit v))"

definition spec_rule_window :: "valves \<Rightarrow> rate_rule \<Rightarrow> real" where
  \<comment> \<open>the length of a rule's window, in seconds\<close>
  "spec_rule_window v r =
     (case r of
        PerMinute \<Rightarrow> 60
      | PerHour \<Rightarrow> 3600
      | SlidingWindow \<Rightarrow>
          (case sliding_window_minutes v of None \<Rightarrow> 0 | Some m \<Rightarrow> real_of_int (m * 60)))"

definition spec_active_rules :: "valves \<Rightarrow> rate_rule list" where
  "spec_active_rules v =
     filter (\<lambda>r. spec_rule_limit v r \<noteq> None) [PerMinute, PerHour, SlidingWindow]"

definition spec_max_lookback :: "valves \<Rightarrow> real option" where
  \<comment> \<open>the largest window among the active rules, \<open>None\<close> when no rule is active\<close>
  "spec_max_lookback v =
     (case map (spec_rule_window v) (spec_active_rules v) of
        [] \<Rightarrow> None
      | w # ws \<Rightarrow> Some (fold max ws w))"

definition within_max_lookback :: "valves \<Rightarrow> real \<Rightarrow> real \<Rightarrow> bool" where
  \<comment> \<open>the age of \<open>req\<close> at the instant \<open>t\<close> is within the maximum lookback\<close>
  "within_max_lookback v t req =
     (case spec_max_lookback v of None \<Rightarrow> False | Some w \<Rightarrow> t - req < w)"

definition field_in :: "user \<Rightarrow> string \<Rightarrow> (string \<Rightarrow> string) \<Rightarrow> string list \<Rightarrow> bool" where
  \<comment> \<open>the record has the field \<open>k\<close>, a string, and its image under \<open>f\<close> is listed\<close>
  "field_in u k f xs = (case map_of u k of Some (PStr s) \<Rightarrow> f s \<in> set xs | _ \<Rightarrow> False)"

definition spec_exempt_stated :: "valves \<Rightarrow> user \<Rightarrow> bool" where
  \<comment> \<open>an exempt identity as the specification words it: the username or the email
      lower-cased and trimmed, the id as it stands\<close>
  "spec_exempt_stated v u =
     (field_in u ''username'' (\<lambda>s. lower (strip s)) (exempt_usernames v) \<or>
      field_in u ''email'' (\<lambda>s. lower (strip s)) (exempt_emails v) \<or>
      field_in u ''id'' (\<lambda>s. s) (exempt_user_ids v))"

definition spec_exempt :: "valves \<Rightarrow> user \<Rightarrow> bool" where
  \<comment> \<open>the same with the id trimmed, as \<^verbatim>\<open>is_exempt\<close> compares it\<close>
  "spec_exempt v u =
     (field_in u ''username'' (\<lambda>s. lower (strip s)) (exempt_usernames v) \<or>
      field_in u ''email'' (\<lambda>s. lower (strip s)) (exempt_emails v) \<or>
      field_in u ''id'' strip (exempt_user_ids v))"

subsection \<open>An example user\<close>

definition u1 :: user where
  "u1 = [(''id'', PStr ''u1''), (''role'', PStr ''user'')]"

section \<open>Properties of the methods\<close>

lemmas eval_defs = inlet_def dict_get_def user_id_of_def is_exempt_def rate_limited_def
  prune_requests_def keep_request_def limits_reached_def count_within_def requests_of_def
  log_request_def is_weekday_def init_def init_valves_def u1_def str_or_empty_def

lemmas spec_defs = within_max_lookback_def spec_max_lookback_def spec_active_rules_def
  spec_rule_limit_def spec_rule_window_def

subsection \<open>Strings\<close>

lemma strip_lower: "strip (lower s) = lower (strip s)"
proof -
  have sp: "is_space \<circ> lower_char = is_space"
    by (rule ext) (auto simp: is_space_def lower_char_def)
  have dw: "dropWhile is_space (map lower_char xs) = map lower_char (dropWhile is_space xs)" for xs
    by (simp add: dropWhile_map sp)
  show ?thesis
    by (simp add: strip_def lower_def rev_map dw)
qed

subsection \<open>Pruning keeps what is within the maximum lookback\<close>

lemma within_max_lookback_iff:
  "within_max_lookback v t req \<longleftrightarrow>
     (\<exists>r \<in> set (spec_active_rules v). t - req < spec_rule_window v r)"
  by (auto simp: within_max_lookback_def spec_max_lookback_def spec_active_rules_def
      split: option.splits if_splits)

lemma spec_active_rules_iff:
  "r \<in> set (spec_active_rules v) \<longleftrightarrow> spec_rule_limit v r \<noteq> None"
  by (cases r) (auto simp: spec_active_rules_def)

lemma keep_request_Inr:
  "keep_request v t req = Inr k \<Longrightarrow> k = within_max_lookback v t req"
  by (auto simp: keep_request_def within_max_lookback_iff spec_active_rules_def
        spec_rule_limit_def spec_rule_window_def
      split: option.splits if_splits)

lemma keep_request_total:
  "sliding_window_limit v = None \<or> sliding_window_minutes v \<noteq> None \<Longrightarrow>
   keep_request v t req = Inr (within_max_lookback v t req)"
  by (auto simp: keep_request_def within_max_lookback_iff spec_active_rules_def
        spec_rule_limit_def spec_rule_window_def
      split: option.splits if_splits)

lemma prune_list_Inr:
  "prune_list v t reqs = Inr kept \<Longrightarrow> kept = filter (within_max_lookback v t) reqs"
  by (induction reqs arbitrary: kept)
     (auto split: sum.splits if_splits dest: keep_request_Inr)

lemma prune_list_total:
  "sliding_window_limit v = None \<or> sliding_window_minutes v \<noteq> None \<Longrightarrow>
   prune_list v t reqs = Inr (filter (within_max_lookback v t) reqs)"
  by (induction reqs) (simp_all add: keep_request_total)

lemma prune_list_idem:
  "prune_list v t reqs = Inr kept \<Longrightarrow> prune_list v t kept = Inr kept"
proof (induction reqs arbitrary: kept)
  case Nil
  then show ?case by simp
next
  case (Cons req reqs)
  then show ?case
    by (auto split: sum.splits if_splits)
qed

lemma prune_list_error: "prune_list v t reqs = Inl err \<Longrightarrow> err = TypeError"
  by (induction reqs)
     (auto simp: keep_request_def split: sum.splits if_splits option.splits)

lemma keep_request_half_set:
  assumes "sliding_window_limit v \<noteq> None"
    and "sliding_window_minutes v = None"
    and "\<not> within_max_lookback v t req"
  shows "keep_request v t req = Inl TypeError"
  using assms
  by (auto simp: keep_request_def within_max_lookback_iff spec_active_rules_def
        spec_rule_limit_def spec_rule_window_def
      split: option.splits if_splits)

lemma prune_list_raises:
  assumes "req \<in> set reqs"
    and "keep_request v t req = Inl TypeError"
  shows "prune_list v t reqs = Inl TypeError"
  using assms
proof (induction reqs)
  case Nil
  then show ?case by simp
next
  case (Cons a reqs)
  show ?case
  proof (cases "keep_request v t a")
    case (Inl err)
    then have "prune_list v t (a # reqs) = Inl err" by simp
    then show ?thesis using prune_list_error by metis
  next
    case (Inr k)
    with Cons.prems have "req \<in> set reqs" by auto
    with Cons.IH Cons.prems(2) have "prune_list v t reqs = Inl TypeError" by simp
    with Inr show ?thesis by simp
  qed
qed

lemma prune_requests_requests_of:
  assumes "prune_requests self e uid = (Inr (), self')"
  shows "requests_of self' uid
           = filter (within_max_lookback (valves self) (now e)) (requests_of self uid)"
  using assms
  by (auto simp: prune_requests_def requests_of_def split: option.splits sum.splits
      dest: prune_list_Inr)

lemma prune_requests_frame:
  "valves (snd (prune_requests self e uid)) = valves self"
  "k \<noteq> uid \<Longrightarrow> user_requests (snd (prune_requests self e uid)) k = user_requests self k"
  by (auto simp: prune_requests_def split: option.splits sum.splits)

lemma prune_requests_total:
  assumes "sliding_window_limit (valves self) = None \<or>
           sliding_window_minutes (valves self) \<noteq> None"
  shows "fst (prune_requests self e uid) = Inr ()"
  using assms by (simp add: prune_requests_def prune_list_total split: option.splits)

subsection \<open>Counting on the pruned list\<close>

lemma count_within_pruned:
  assumes "r \<in> set (spec_active_rules v)"
  shows "count_within t (spec_rule_window v r) (filter (within_max_lookback v t) reqs)
         = count_within t (spec_rule_window v r) reqs"
proof -
  have "\<And>req. t - req < spec_rule_window v r \<Longrightarrow> within_max_lookback v t req"
    using assms by (auto simp: within_max_lookback_iff)
  then have "filter (\<lambda>req. t - req < spec_rule_window v r) (filter (within_max_lookback v t) reqs)
        = filter (\<lambda>req. t - req < spec_rule_window v r) reqs"
    by (induction reqs) auto
  then show ?thesis by (simp add: count_within_def)
qed

lemma count_within_le_length: "count_within t w reqs \<le> int (length reqs)"
  by (simp add: count_within_def)

lemma limits_reached_rule:
  assumes "spec_rule_limit v r = Some n"
    and "n \<le> count_within t (spec_rule_window v r) reqs"
  shows "limits_reached v t (filter (within_max_lookback v t) reqs)"
proof -
  let ?kept = "filter (within_max_lookback v t) reqs"
  have act: "r \<in> set (spec_active_rules v)"
    using assms(1) by (simp add: spec_active_rules_iff)
  have cnt: "n \<le> count_within t (spec_rule_window v r) ?kept"
    using assms(2) count_within_pruned [OF act] by simp
  show ?thesis
  proof (cases r)
    case PerMinute
    with assms(1) cnt show ?thesis
      by (simp add: limits_reached_def spec_rule_limit_def spec_rule_window_def)
  next
    case PerHour
    with assms(1) cnt show ?thesis
      by (simp add: limits_reached_def spec_rule_limit_def spec_rule_window_def)
  next
    case SlidingWindow
    with assms(1) have lim: "sliding_window_limit v = Some n"
      by (simp add: spec_rule_limit_def split: if_splits)
    from cnt count_within_le_length [of t "spec_rule_window v r" ?kept]
    have "n \<le> int (length ?kept)" by linarith
    with lim show ?thesis
      by (simp add: limits_reached_def)
  qed
qed

lemma rate_limited_error: "rate_limited self e uid = (Inl err, self') \<Longrightarrow> err = TypeError"
  by (auto simp: rate_limited_def prune_requests_def
      split: prod.splits sum.splits option.splits dest: prune_list_error)

lemma rate_limited_rule:
  assumes "spec_rule_limit (valves self) r = Some n"
    and "n \<le> count_within (now e) (spec_rule_window (valves self) r) (requests_of self uid)"
  shows "fst (rate_limited self e uid) = Inr True \<or>
         (\<exists>err. fst (rate_limited self e uid) = Inl err \<and>
                fst (prune_requests self e uid) = Inl err)"
proof (cases "prune_requests self e uid")
  case (Pair res self')
  show ?thesis
  proof (cases res)
    case (Inl err)
    with Pair show ?thesis by (simp add: rate_limited_def)
  next
    case (Inr x)
    with Pair have pr: "prune_requests self e uid = (Inr (), self')" by simp
    have v: "valves self' = valves self"
      using prune_requests_frame(1) [of self e uid] pr by simp
    have "limits_reached (valves self') (now e) (requests_of self' uid)"
      using limits_reached_rule [OF assms] prune_requests_requests_of [OF pr] v by simp
    with pr show ?thesis by (simp add: rate_limited_def)
  qed
qed

subsection \<open>The paths through the filter\<close>

lemma inlet_enforced:
  assumes "map_of u ''role'' = Some (PStr ''user'')"
    and "\<not> is_exempt self (Some u)"
    and "\<not> weekdays_only (valves self) \<or> is_weekday e"
  shows "inlet self e body (Some u) =
     (case rate_limited self e (user_id_of u) of
        (Inl err, self') \<Rightarrow> (Inl err, self')
      | (Inr True, self') \<Rightarrow> (Inl RateLimitExceeded, self')
      | (Inr False, self') \<Rightarrow> (Inr body, log_request self' e (user_id_of u)))"
  using assms by (simp add: inlet_def dict_get_def Let_def)

lemma inlet_Some_error:
  "fst (inlet self e body (Some u)) = Inl err \<Longrightarrow> err = RateLimitExceeded \<or> err = TypeError"
  by (auto simp: inlet_def Let_def split: if_splits prod.splits sum.splits bool.splits
      dest: rate_limited_error)

lemma user_id_of_default:
  "map_of u ''id'' = None \<Longrightarrow> user_id_of u = PStr ''default_user''"
  by (simp add: user_id_of_def)

lemma spec_exempt_is_exempt:
  assumes "spec_exempt (valves self) u"
  shows "is_exempt self (Some u)"
proof -
  from assms have "u \<noteq> []"
    by (auto simp: spec_exempt_def field_in_def)
  with assms show ?thesis
    by (auto simp: spec_exempt_def field_in_def is_exempt_def dict_get_def str_or_empty_def
        split: option.splits pyval.splits)
qed

subsection \<open>An allowed call\<close>

text \<open>
  A call that is allowed found every active rule below its limit, and records now after
  the pruned history.
\<close>

lemma limits_reached_False:
  assumes "\<not> limits_reached v t reqs"
    and "spec_rule_limit v r = Some n"
  shows "count_within t (spec_rule_window v r) reqs < n"
proof (cases r)
  case PerMinute
  with assms show ?thesis
    by (auto simp: limits_reached_def spec_rule_limit_def spec_rule_window_def
        split: if_splits option.splits)
next
  case PerHour
  with assms show ?thesis
    by (auto simp: limits_reached_def spec_rule_limit_def spec_rule_window_def
        split: if_splits option.splits)
next
  case SlidingWindow
  with assms have "int (length reqs) < n"
    by (auto simp: limits_reached_def spec_rule_limit_def split: if_splits option.splits)
  with count_within_le_length [of t "spec_rule_window v r" reqs] show ?thesis
    by linarith
qed

lemma allowed_below_limits:
  assumes "map_of u ''role'' = Some (PStr ''user'')"
    and "\<not> is_exempt self (Some u)"
    and "\<not> weekdays_only (valves self) \<or> is_weekday e"
    and "inlet self e body (Some u) = (Inr body', self')"
    and "spec_rule_limit (valves self) r = Some n"
  shows "count_within (now e) (spec_rule_window (valves self) r) (requests_of self (user_id_of u)) < n"
    and "requests_of self' (user_id_of u)
           = filter (within_max_lookback (valves self) (now e)) (requests_of self (user_id_of u))
             @ [now e]"
proof -
  let ?uid = "user_id_of u"
  from assms(4) inlet_enforced [OF assms(1-3), of body]
  obtain s where rl: "rate_limited self e ?uid = (Inr False, s)"
    and s': "self' = log_request s e ?uid"
    by (auto split: prod.splits sum.splits bool.splits)
  then have pr: "prune_requests self e ?uid = (Inr (), s)"
    and lr: "\<not> limits_reached (valves s) (now e) (requests_of s ?uid)"
    by (auto simp: rate_limited_def split: prod.splits sum.splits)
  have v: "valves s = valves self"
    using prune_requests_frame(1) [of self e ?uid] pr by simp
  have kept: "requests_of s ?uid
      = filter (within_max_lookback (valves self) (now e)) (requests_of self ?uid)"
    by (rule prune_requests_requests_of [OF pr])
  have act: "r \<in> set (spec_active_rules (valves self))"
    using assms(5) by (simp add: spec_active_rules_iff)
  from limits_reached_False [OF lr] assms(5) v
  have "count_within (now e) (spec_rule_window (valves self) r) (requests_of s ?uid) < n"
    by simp
  then show "count_within (now e) (spec_rule_window (valves self) r) (requests_of self ?uid) < n"
    using count_within_pruned [OF act] kept by simp
  show "requests_of self' ?uid
      = filter (within_max_lookback (valves self) (now e)) (requests_of self ?uid) @ [now e]"
    using s' kept by (simp add: log_request_def requests_of_def)
qed

lemma allowed_within_limit:
  assumes "map_of u ''role'' = Some (PStr ''user'')"
    and "\<not> is_exempt self (Some u)"
    and "\<not> weekdays_only (valves self) \<or> is_weekday e"
    and "inlet self e body (Some u) = (Inr body', self')"
    and "spec_rule_limit (valves self) r = Some n"
  shows "count_within (now e) (spec_rule_window (valves self) r) (requests_of self' (user_id_of u))
         \<le> n"
proof -
  let ?uid = "user_id_of u" and ?w = "spec_rule_window (valves self) r"
  let ?kept = "filter (within_max_lookback (valves self) (now e)) (requests_of self ?uid)"
  have act: "r \<in> set (spec_active_rules (valves self))"
    using assms(5) by (simp add: spec_active_rules_iff)
  have "count_within (now e) ?w (requests_of self ?uid) < n"
    by (rule allowed_below_limits(1) [OF assms])
  then have "count_within (now e) ?w ?kept < n"
    using count_within_pruned [OF act] by simp
  moreover have "requests_of self' ?uid = ?kept @ [now e]"
    by (rule allowed_below_limits(2) [OF assms])
  ultimately show ?thesis
    by (simp add: count_within_def)
qed

subsection \<open>The window length without a limit\<close>

text \<open>
  With no \<open>sliding_window_limit\<close>, the value of \<open>sliding_window_minutes\<close> is never read:
  setting it changes no outcome and no history.
\<close>

lemma keep_request_minutes:
  "sliding_window_limit v = None \<Longrightarrow>
   keep_request (v\<lparr>sliding_window_minutes := m\<rparr>) t req = keep_request v t req"
  by (simp add: keep_request_def)

lemma prune_list_minutes:
  "sliding_window_limit v = None \<Longrightarrow>
   prune_list (v\<lparr>sliding_window_minutes := m\<rparr>) t reqs = prune_list v t reqs"
  by (induction reqs) (auto simp: keep_request_minutes split: sum.splits)

lemma limits_reached_minutes:
  "limits_reached (v\<lparr>sliding_window_minutes := m\<rparr>) t reqs = limits_reached v t reqs"
  by (simp add: limits_reached_def)

lemma prune_requests_minutes:
  assumes "sliding_window_limit (valves self) = None"
  shows "prune_requests (self\<lparr>valves := (valves self)\<lparr>sliding_window_minutes := m\<rparr>\<rparr>) e uid
     = (fst (prune_requests self e uid),
        (snd (prune_requests self e uid))\<lparr>valves := (valves self)\<lparr>sliding_window_minutes := m\<rparr>\<rparr>)"
  using assms
  by (simp add: prune_requests_def prune_list_minutes split: option.splits sum.splits)

lemma rate_limited_minutes:
  assumes "sliding_window_limit (valves self) = None"
  shows "rate_limited (self\<lparr>valves := (valves self)\<lparr>sliding_window_minutes := m\<rparr>\<rparr>) e uid
     = (fst (rate_limited self e uid),
        (snd (rate_limited self e uid))\<lparr>valves := (valves self)\<lparr>sliding_window_minutes := m\<rparr>\<rparr>)"
proof (cases "prune_requests self e uid")
  case (Pair res s)
  have v: "valves s = valves self"
    using prune_requests_frame(1) [of self e uid] Pair by simp
  show ?thesis
  proof (cases res)
    case (Inl err)
    with Pair show ?thesis
      by (simp add: rate_limited_def prune_requests_minutes [OF assms])
  next
    case (Inr x)
    with Pair v show ?thesis
      by (simp add: rate_limited_def prune_requests_minutes [OF assms] limits_reached_minutes
          requests_of_def)
  qed
qed

lemma is_exempt_minutes:
  "is_exempt (self\<lparr>valves := (valves self)\<lparr>sliding_window_minutes := m\<rparr>\<rparr>) user
     = is_exempt self user"
  by (auto simp: is_exempt_def split: option.splits pyval.splits)

lemma log_request_minutes:
  "log_request (s\<lparr>valves := v\<rparr>) e uid = (log_request s e uid)\<lparr>valves := v\<rparr>"
  by (simp add: log_request_def requests_of_def)

lemma minutes_alone_inert:
  assumes "sliding_window_limit (valves self) = None"
  shows "inlet (self\<lparr>valves := (valves self)\<lparr>sliding_window_minutes := m\<rparr>\<rparr>) e body user
     = (fst (inlet self e body user),
        (snd (inlet self e body user))\<lparr>valves := (valves self)\<lparr>sliding_window_minutes := m\<rparr>\<rparr>)"
proof (cases user)
  case None
  then show ?thesis by (simp add: inlet_def)
next
  case (Some u)
  let ?self = "self\<lparr>valves := (valves self)\<lparr>sliding_window_minutes := m\<rparr>\<rparr>"
  show ?thesis
  proof (cases "map_of u ''role'' = Some (PStr ''user'') \<and> \<not> is_exempt self (Some u) \<and>
                (\<not> weekdays_only (valves self) \<or> is_weekday e)")
    case False
    with Some show ?thesis
      by (auto simp: inlet_def Let_def dict_get_def is_exempt_minutes split: option.splits)
  next
    case True
    then have a: "inlet self e body (Some u) =
       (case rate_limited self e (user_id_of u) of
          (Inl err, self') \<Rightarrow> (Inl err, self')
        | (Inr True, self') \<Rightarrow> (Inl RateLimitExceeded, self')
        | (Inr False, self') \<Rightarrow> (Inr body, log_request self' e (user_id_of u)))"
      by (simp add: inlet_enforced)
    from True have "inlet ?self e body (Some u) =
       (case rate_limited ?self e (user_id_of u) of
          (Inl err, self') \<Rightarrow> (Inl err, self')
        | (Inr True, self') \<Rightarrow> (Inl RateLimitExceeded, self')
        | (Inr False, self') \<Rightarrow> (Inr body, log_request self' e (user_id_of u)))"
      by (intro inlet_enforced) (simp_all add: is_exempt_minutes)
    with a Some show ?thesis
      by (cases "rate_limited self e (user_id_of u)")
         (auto simp: rate_limited_minutes [OF assms] log_request_minutes
            split: sum.splits bool.splits)
  qed
qed

subsection \<open>A scenario of the specification\<close>

text \<open>
  A sliding window of 3 requests in 1 minute and no other rule: three calls at 0 are
  allowed, a fourth at 30 is rejected, a fifth at 61 is allowed, the earlier entries
  having left the window.
\<close>

lemma sliding_window_scenario:
  "inlet \<lparr>valves = init_valves\<lparr>requests_per_minute := None, requests_per_hour := None,
        sliding_window_limit := Some 3, sliding_window_minutes := Some 1, weekdays_only := False\<rparr>,
      user_requests = Map.empty\<rparr>
     \<lparr>now = 0, weekday = 0\<rparr> () (Some u1)
   = (Inr (),
      \<lparr>valves = init_valves\<lparr>requests_per_minute := None, requests_per_hour := None,
        sliding_window_limit := Some 3, sliding_window_minutes := Some 1, weekdays_only := False\<rparr>,
      user_requests = [PStr ''u1'' \<mapsto> [0]]\<rparr>) \<and>
   inlet \<lparr>valves = init_valves\<lparr>requests_per_minute := None, requests_per_hour := None,
        sliding_window_limit := Some 3, sliding_window_minutes := Some 1, weekdays_only := False\<rparr>,
      user_requests = [PStr ''u1'' \<mapsto> [0]]\<rparr>
     \<lparr>now = 0, weekday = 0\<rparr> () (Some u1)
   = (Inr (),
      \<lparr>valves = init_valves\<lparr>requests_per_minute := None, requests_per_hour := None,
        sliding_window_limit := Some 3, sliding_window_minutes := Some 1, weekdays_only := False\<rparr>,
      user_requests = [PStr ''u1'' \<mapsto> [0, 0]]\<rparr>) \<and>
   inlet \<lparr>valves = init_valves\<lparr>requests_per_minute := None, requests_per_hour := None,
        sliding_window_limit := Some 3, sliding_window_minutes := Some 1, weekdays_only := False\<rparr>,
      user_requests = [PStr ''u1'' \<mapsto> [0, 0]]\<rparr>
     \<lparr>now = 0, weekday = 0\<rparr> () (Some u1)
   = (Inr (),
      \<lparr>valves = init_valves\<lparr>requests_per_minute := None, requests_per_hour := None,
        sliding_window_limit := Some 3, sliding_window_minutes := Some 1, weekdays_only := False\<rparr>,
      user_requests = [PStr ''u1'' \<mapsto> [0, 0, 0]]\<rparr>) \<and>
   inlet \<lparr>valves = init_valves\<lparr>requests_per_minute := None, requests_per_hour := None,
        sliding_window_limit := Some 3, sliding_window_minutes := Some 1, weekdays_only := False\<rparr>,
      user_requests = [PStr ''u1'' \<mapsto> [0, 0, 0]]\<rparr>
     \<lparr>now = 30, weekday = 0\<rparr> () (Some u1)
   = (Inl RateLimitExceeded,
      \<lparr>valves = init_valves\<lparr>requests_per_minute := None, requests_per_hour := None,
        sliding_window_limit := Some 3, sliding_window_minutes := Some 1, weekdays_only := False\<rparr>,
      user_requests = [PStr ''u1'' \<mapsto> [0, 0, 0]]\<rparr>) \<and>
   inlet \<lparr>valves = init_valves\<lparr>requests_per_minute := None, requests_per_hour := None,
        sliding_window_limit := Some 3, sliding_window_minutes := Some 1, weekdays_only := False\<rparr>,
      user_requests = [PStr ''u1'' \<mapsto> [0, 0, 0]]\<rparr>
     \<lparr>now = 61, weekday = 0\<rparr> () (Some u1)
   = (Inr (),
      \<lparr>valves = init_valves\<lparr>requests_per_minute := None, requests_per_hour := None,
        sliding_window_limit := Some 3, sliding_window_minutes := Some 1, weekdays_only := False\<rparr>,
      user_requests = [PStr ''u1'' \<mapsto> [61]]\<rparr>)"
  by (simp add: eval_defs)

subsection \<open>Thresholds when the sliding window is not half set\<close>

text \<open>
  For a present record with the role \<^verbatim>\<open>user\<close> that \<^verbatim>\<open>is_exempt\<close> does not exempt,
  on an enforced day: when the recorded requests within the window of an active rule
  number its limit or more, the call raises, and it raises the rejection unless the
  limit of the sliding window is set without its length.
\<close>

lemma threshold_inclusive:
  assumes "map_of u ''role'' = Some (PStr ''user'')"
    and "\<not> is_exempt self (Some u)"
    and "\<not> weekdays_only (valves self) \<or> is_weekday e"
    and "spec_rule_limit (valves self) r = Some n"
    and "n \<le> count_within (now e) (spec_rule_window (valves self) r)
                 (requests_of self (user_id_of u))"
  shows "(\<exists>err. fst (inlet self e body (Some u)) = Inl err) \<and>
         (sliding_window_limit (valves self) = None \<or>
          sliding_window_minutes (valves self) \<noteq> None
            \<longrightarrow> fst (inlet self e body (Some u)) = Inl RateLimitExceeded)"
proof -
  let ?uid = "user_id_of u"
  obtain res self' where rl: "rate_limited self e ?uid = (res, self')"
    by (cases "rate_limited self e ?uid")
  have il: "inlet self e body (Some u) =
     (case (res, self') of
        (Inl err, s) \<Rightarrow> (Inl err, s)
      | (Inr True, s) \<Rightarrow> (Inl RateLimitExceeded, s)
      | (Inr False, s) \<Rightarrow> (Inr body, log_request s e ?uid))"
    using inlet_enforced [OF assms(1-3), of body] rl by simp
  from rate_limited_rule [OF assms(4,5)] rl
  consider "res = Inr True"
    | err where "res = Inl err" "fst (prune_requests self e ?uid) = Inl err"
    by auto
  then show ?thesis
  proof cases
    case 1
    with il show ?thesis by simp
  next
    case 2
    with il have "fst (inlet self e body (Some u)) = Inl err" by simp
    moreover have "sliding_window_limit (valves self) = None \<or>
        sliding_window_minutes (valves self) \<noteq> None \<Longrightarrow> False"
      using prune_requests_total [of self e ?uid] 2(2) by simp
    ultimately show ?thesis by auto
  qed
qed

text \<open>
  The scenario of the specification: 2 requests per minute and no other rule; the calls
  at 0 and 1 are allowed and recorded, the call at 2 is rejected.
\<close>

lemma threshold_scenario:
  "inlet \<lparr>valves = init_valves\<lparr>requests_per_minute := Some 2, requests_per_hour := None,
        sliding_window_limit := None, sliding_window_minutes := None, weekdays_only := False\<rparr>,
      user_requests = Map.empty\<rparr> \<lparr>now = 0, weekday = 0\<rparr> () (Some u1)
   = (Inr (), \<lparr>valves = init_valves\<lparr>requests_per_minute := Some 2, requests_per_hour := None,
        sliding_window_limit := None, sliding_window_minutes := None, weekdays_only := False\<rparr>,
      user_requests = [PStr ''u1'' \<mapsto> [0]]\<rparr>) \<and>
   inlet \<lparr>valves = init_valves\<lparr>requests_per_minute := Some 2, requests_per_hour := None,
        sliding_window_limit := None, sliding_window_minutes := None, weekdays_only := False\<rparr>,
      user_requests = [PStr ''u1'' \<mapsto> [0]]\<rparr> \<lparr>now = 1, weekday = 0\<rparr> () (Some u1)
   = (Inr (), \<lparr>valves = init_valves\<lparr>requests_per_minute := Some 2, requests_per_hour := None,
        sliding_window_limit := None, sliding_window_minutes := None, weekdays_only := False\<rparr>,
      user_requests = [PStr ''u1'' \<mapsto> [0, 1]]\<rparr>) \<and>
   fst (inlet \<lparr>valves = init_valves\<lparr>requests_per_minute := Some 2, requests_per_hour := None,
        sliding_window_limit := None, sliding_window_minutes := None, weekdays_only := False\<rparr>,
      user_requests = [PStr ''u1'' \<mapsto> [0, 1]]\<rparr> \<lparr>now = 2, weekday = 0\<rparr> () (Some u1))
   = Inl RateLimitExceeded"
proof -
  let ?v = "init_valves\<lparr>requests_per_minute := Some 2, requests_per_hour := None,
        sliding_window_limit := None, sliding_window_minutes := None, weekdays_only := False\<rparr>"
  let ?s2 = "\<lparr>valves = ?v, user_requests = [PStr ''u1'' \<mapsto> [0, 1]]\<rparr>"
  let ?e2 = "\<lparr>now = 2, weekday = 0\<rparr>"
  have "(\<exists>err. fst (inlet ?s2 ?e2 () (Some u1)) = Inl err) \<and>
        (sliding_window_limit (valves ?s2) = None \<or> sliding_window_minutes (valves ?s2) \<noteq> None
            \<longrightarrow> fst (inlet ?s2 ?e2 () (Some u1)) = Inl RateLimitExceeded)"
    by (rule threshold_inclusive [where r = PerMinute and n = 2])
       (simp_all add: eval_defs spec_defs)
  then have "fst (inlet ?s2 ?e2 () (Some u1)) = Inl RateLimitExceeded"
    by (simp add: init_valves_def)
  then show ?thesis
    by (simp add: eval_defs)
qed

subsection \<open>The weekend, for a present record\<close>

text \<open>
  When \<open>weekdays_only\<close> is set, a call with a user record on a Saturday (weekday 5) or
  a Sunday (weekday 6) returns the body and leaves the object as it was.
\<close>

lemma weekend_not_enforced:
  assumes "weekdays_only (valves self)"
    and "weekday e = 5 \<or> weekday e = 6"
  shows "inlet self e body (Some u) = (Inr body, self)"
  using assms by (auto simp: inlet_def is_weekday_def Let_def)

text \<open>
  A user already past the limit of 1 request per minute is allowed on a Saturday, and
  rejected at the same instant of a Friday.
\<close>

lemma weekend_scenario:
  "inlet \<lparr>valves = init_valves\<lparr>requests_per_minute := Some 1\<rparr>,
      user_requests = [PStr ''u1'' \<mapsto> [0, 1, 2]]\<rparr> \<lparr>now = 3, weekday = 5\<rparr> () (Some u1)
   = (Inr (), \<lparr>valves = init_valves\<lparr>requests_per_minute := Some 1\<rparr>,
      user_requests = [PStr ''u1'' \<mapsto> [0, 1, 2]]\<rparr>) \<and>
   fst (inlet \<lparr>valves = init_valves\<lparr>requests_per_minute := Some 1\<rparr>,
      user_requests = [PStr ''u1'' \<mapsto> [0, 1, 2]]\<rparr> \<lparr>now = 3, weekday = 4\<rparr> () (Some u1))
   = Inl RateLimitExceeded"
proof -
  let ?s = "\<lparr>valves = init_valves\<lparr>requests_per_minute := Some 1\<rparr>,
      user_requests = [PStr ''u1'' \<mapsto> [0, 1, 2]]\<rparr>"
  have "inlet ?s \<lparr>now = 3, weekday = 5\<rparr> () (Some u1) = (Inr (), ?s)"
    by (rule weekend_not_enforced) (simp_all add: init_valves_def)
  moreover have "fst (inlet ?s \<lparr>now = 3, weekday = 4\<rparr> () (Some u1)) = Inl RateLimitExceeded"
    by (simp add: eval_defs)
  ultimately show ?thesis by simp
qed

subsection \<open>Pruning under the valves of the constructor\<close>

text \<open>
  Under the valves of the constructor the maximum lookback is 3600: at 3700 the entries
  at 0 and 100 go and those at 3000 and 3700 stay.
\<close>

lemma prune_requests_scenario:
  "spec_max_lookback init_valves = Some 3600 \<and>
   requests_of (snd (prune_requests
      \<lparr>valves = init_valves, user_requests = [PStr ''u1'' \<mapsto> [0, 100, 3000, 3700]]\<rparr>
      \<lparr>now = 3700, weekday = 0\<rparr> (PStr ''u1''))) (PStr ''u1'') = [3000, 3700]"
proof -
  let ?s = "\<lparr>valves = init_valves, user_requests = [PStr ''u1'' \<mapsto> [0, 100, 3000, 3700]]\<rparr>"
  let ?e = "\<lparr>now = 3700, weekday = 0\<rparr>"
  have "prune_requests ?s ?e (PStr ''u1'') = (Inr (), snd (prune_requests ?s ?e (PStr ''u1'')))"
    by (simp add: prune_requests_def keep_request_def init_valves_def)
  from prune_requests_requests_of [OF this] show ?thesis
    by (simp add: spec_defs requests_of_def init_valves_def)
qed

section \<open>The claims\<close>

subsection \<open>C1: what is compared with the sliding-window limit\<close>

text \<open>
  Claim C1 says that the count compared with \<open>sliding_window_limit\<close> is the number of
  recorded timestamps within \<open>sliding_window_minutes * 60\<close> seconds of now. The code
  compares the limit with the length of the whole pruned list, and pruning keeps what
  any active rule's window holds: a subject user on an enforced day is rejected as soon
  as the timestamps within the maximum lookback of the active rules number
  \<open>sliding_window_limit\<close>, whatever their age within that lookback.
\<close>

theorem sliding_limit_counts_all_retained:
  assumes "map_of u ''role'' = Some (PStr ''user'')"
    and "\<not> is_exempt self (Some u)"
    and "\<not> weekdays_only (valves self) \<or> is_weekday e"
    and "sliding_window_limit (valves self) = Some n"
    and "sliding_window_minutes (valves self) = Some m"
    and "n \<le> int (length (filter (within_max_lookback (valves self) (now e))
                              (requests_of self (user_id_of u))))"
  shows "fst (inlet self e body (Some u)) = Inl RateLimitExceeded"
proof -
  let ?uid = "user_id_of u"
  obtain self' where pr: "prune_requests self e ?uid = (Inr (), self')"
    using prune_requests_total [of self e ?uid] assms(5)
    by (cases "prune_requests self e ?uid") auto
  have v: "valves self' = valves self"
    using prune_requests_frame(1) [of self e ?uid] pr by simp
  have "limits_reached (valves self') (now e) (requests_of self' ?uid)"
    using assms(4,6) prune_requests_requests_of [OF pr] v
    by (simp add: limits_reached_def)
  with pr have "rate_limited self e ?uid = (Inr True, self')"
    by (simp add: rate_limited_def)
  then show ?thesis
    using inlet_enforced [OF assms(1-3), of body] by simp
qed

text \<open>
  The failing input: 1000 requests per hour, a sliding window of 1 request per minute,
  one request recorded at 0, and a call at 120. No request lies within the sliding
  window and one lies within the hour, yet the call is rejected.
\<close>

theorem sliding_limit_counts_all_retained_witness:
  "spec_rule_limit (init_valves\<lparr>requests_per_minute := None, sliding_window_limit := Some 1,
       sliding_window_minutes := Some 1, weekdays_only := False\<rparr>) SlidingWindow = Some 1 \<and>
   count_within 120 (spec_rule_window (init_valves\<lparr>requests_per_minute := None,
       sliding_window_limit := Some 1, sliding_window_minutes := Some 1,
       weekdays_only := False\<rparr>) SlidingWindow) [0] = 0 \<and>
   count_within 120 3600 [0] = 1 \<and>
   fst (inlet
     \<lparr>valves = init_valves\<lparr>requests_per_minute := None, sliding_window_limit := Some 1,
        sliding_window_minutes := Some 1, weekdays_only := False\<rparr>,
      user_requests = [PStr ''u1'' \<mapsto> [0]]\<rparr>
     \<lparr>now = 120, weekday = 0\<rparr> () (Some u1)) = Inl RateLimitExceeded"
proof -
  let ?v = "init_valves\<lparr>requests_per_minute := None, sliding_window_limit := Some 1,
        sliding_window_minutes := Some 1, weekdays_only := False\<rparr>"
  let ?s = "\<lparr>valves = ?v, user_requests = [PStr ''u1'' \<mapsto> [0]]\<rparr>"
  let ?e = "\<lparr>now = 120, weekday = 0\<rparr>"
  have "fst (inlet ?s ?e () (Some u1)) = Inl RateLimitExceeded"
    by (rule sliding_limit_counts_all_retained [where n = 1 and m = 1])
       (simp_all add: eval_defs spec_defs)
  then show ?thesis
    by (simp add: spec_rule_limit_def spec_rule_window_def count_within_def init_valves_def)
qed

subsection \<open>C2: a sliding window with one parameter set\<close>

text \<open>
  Claim C2 says that a sliding-window rule with only one of its two parameters set is
  inactive: no rejection, no exception. The code tests \<open>sliding_window_limit\<close> alone.
  With the limit set and \<open>sliding_window_minutes\<close> unset, no other rule set and a
  history that is not empty, pruning multiplies \<^verbatim>\<open>None\<close> by 60: the call of a subject
  user on an enforced day raises TypeError and leaves the object as it was.
\<close>

theorem half_set_sliding_window_raises:
  assumes "map_of u ''role'' = Some (PStr ''user'')"
    and "\<not> is_exempt self (Some u)"
    and "\<not> weekdays_only (valves self) \<or> is_weekday e"
    and "requests_per_minute (valves self) = None"
    and "requests_per_hour (valves self) = None"
    and "sliding_window_limit (valves self) = Some n"
    and "sliding_window_minutes (valves self) = None"
    and "requests_of self (user_id_of u) \<noteq> []"
  shows "inlet self e body (Some u) = (Inl TypeError, self)"
proof -
  let ?uid = "user_id_of u"
  from assms(8) obtain req reqs where ur: "user_requests self ?uid = Some (req # reqs)"
    by (auto simp: requests_of_def neq_Nil_conv split: option.splits)
  have "keep_request (valves self) (now e) req = Inl TypeError"
    using assms(4-7) by (simp add: keep_request_def)
  then have "prune_list (valves self) (now e) (req # reqs) = Inl TypeError"
    by simp
  with ur have "prune_requests self e ?uid = (Inl TypeError, self)"
    by (simp add: prune_requests_def)
  then have "rate_limited self e ?uid = (Inl TypeError, self)"
    by (simp add: rate_limited_def)
  then show ?thesis
    using inlet_enforced [OF assms(1-3), of body] by simp
qed

text \<open>
  The failing inputs. With a limit of 5 and no window length the second call of a user
  raises TypeError, where the same call with no limit is allowed. With a limit of 1, no
  window length and the hourly rule set, the call is rejected on account of the
  sliding-window limit, where the same call with no limit is allowed.
\<close>

theorem half_set_sliding_window_raises_witness:
  "inlet
     \<lparr>valves = init_valves\<lparr>requests_per_minute := None, requests_per_hour := None,
        sliding_window_limit := Some 5, sliding_window_minutes := None, weekdays_only := False\<rparr>,
      user_requests = [PStr ''u1'' \<mapsto> [0]]\<rparr>
     \<lparr>now = 1, weekday = 0\<rparr> () (Some u1)
   = (Inl TypeError,
      \<lparr>valves = init_valves\<lparr>requests_per_minute := None, requests_per_hour := None,
        sliding_window_limit := Some 5, sliding_window_minutes := None, weekdays_only := False\<rparr>,
       user_requests = [PStr ''u1'' \<mapsto> [0]]\<rparr>) \<and>
   fst (inlet
     \<lparr>valves = init_valves\<lparr>requests_per_minute := None, requests_per_hour := None,
        sliding_window_limit := None, sliding_window_minutes := None, weekdays_only := False\<rparr>,
      user_requests = [PStr ''u1'' \<mapsto> [0]]\<rparr>
     \<lparr>now = 1, weekday = 0\<rparr> () (Some u1)) = Inr () \<and>
   fst (inlet
     \<lparr>valves = init_valves\<lparr>requests_per_minute := None,
        sliding_window_limit := Some 1, sliding_window_minutes := None, weekdays_only := False\<rparr>,
      user_requests = [PStr ''u1'' \<mapsto> [0]]\<rparr>
     \<lparr>now = 1, weekday = 0\<rparr> () (Some u1)) = Inl RateLimitExceeded \<and>
   fst (inlet
     \<lparr>valves = init_valves\<lparr>requests_per_minute := None,
        sliding_window_limit := None, sliding_window_minutes := None, weekdays_only := False\<rparr>,
      user_requests = [PStr ''u1'' \<mapsto> [0]]\<rparr>
     \<lparr>now = 1, weekday = 0\<rparr> () (Some u1)) = Inr ()"
proof -
  let ?s = "\<lparr>valves = init_valves\<lparr>requests_per_minute := None, requests_per_hour := None,
        sliding_window_limit := Some 5, sliding_window_minutes := None, weekdays_only := False\<rparr>,
      user_requests = [PStr ''u1'' \<mapsto> [0]]\<rparr>"
  have "inlet ?s \<lparr>now = 1, weekday = 0\<rparr> () (Some u1) = (Inl TypeError, ?s)"
    by (rule half_set_sliding_window_raises [where n = 5]) (simp_all add: eval_defs)
  then show ?thesis
    by (simp add: eval_defs)
qed

subsection \<open>C3: an absent user record\<close>

text \<open>
  Claim C3 says that no identity record, an absent one included, makes the filter raise
  anything but the rejection. \<^verbatim>\<open>inlet\<close> reads the role with \<^verbatim>\<open>user.get\<close> before
  any test of \<^verbatim>\<open>user\<close>: called without a user record it raises AttributeError, in
  every configuration and at every instant.
\<close>

theorem inlet_no_user_raises:
  "inlet self e body None = (Inl AttributeError, self)"
  by (simp add: inlet_def)

theorem inlet_no_user_raises_witness:
  "inlet init \<lparr>now = 0, weekday = 0\<rparr> () None = (Inl AttributeError, init)"
  by (rule inlet_no_user_raises)

subsection \<open>C4: thresholds are inclusive\<close>

text \<open>
  Claim C4 says that a call is rejected whenever the recorded requests within the
  window of an active rule number its limit. The code prunes before it counts, and
  pruning fails when the limit of the sliding window is set without its length: for a
  subject user on an enforced day, with the limit of an active rule reached and an
  entry in the history that is older than every active window, \<^verbatim>\<open>inlet\<close> raises
  TypeError, not the rejection, and leaves the object as it was. (The defect is the one
  of claim C2; where the sliding window is not half set, \<open>threshold_inclusive\<close> gives
  the rejection.)
\<close>

theorem threshold_reached_raises_type_error:
  assumes "map_of u ''role'' = Some (PStr ''user'')"
    and "\<not> is_exempt self (Some u)"
    and "\<not> weekdays_only (valves self) \<or> is_weekday e"
    and "spec_rule_limit (valves self) r = Some n"
    and "n \<le> count_within (now e) (spec_rule_window (valves self) r)
                 (requests_of self (user_id_of u))"
    and "sliding_window_limit (valves self) \<noteq> None"
    and "sliding_window_minutes (valves self) = None"
    and "req \<in> set (requests_of self (user_id_of u))"
    and "\<not> within_max_lookback (valves self) (now e) req"
  shows "inlet self e body (Some u) = (Inl TypeError, self)"
proof -
  let ?uid = "user_id_of u"
  from assms(8) obtain reqs where ur: "user_requests self ?uid = Some reqs"
    and mem: "req \<in> set reqs"
    by (cases "user_requests self ?uid") (auto simp: requests_of_def)
  have "keep_request (valves self) (now e) req = Inl TypeError"
    by (rule keep_request_half_set [OF assms(6,7,9)])
  with mem have "prune_list (valves self) (now e) reqs = Inl TypeError"
    by (rule prune_list_raises)
  with ur have "prune_requests self e ?uid = (Inl TypeError, self)"
    by (simp add: prune_requests_def)
  then have "rate_limited self e ?uid = (Inl TypeError, self)"
    by (simp add: rate_limited_def)
  then show ?thesis
    using inlet_enforced [OF assms(1-3), of body] by simp
qed

text \<open>
  The failing input: 1 request per minute, a sliding-window limit of 5 with no window
  length, the history 0 and 100, and a call at 101. Exactly one request lies within the
  minute, and the call raises TypeError.
\<close>

theorem threshold_reached_raises_type_error_witness:
  "spec_rule_limit (init_valves\<lparr>requests_per_minute := Some 1, requests_per_hour := None,
       sliding_window_limit := Some 5, sliding_window_minutes := None,
       weekdays_only := False\<rparr>) PerMinute = Some 1 \<and>
   count_within 101 60 [0, 100] = 1 \<and>
   inlet
     \<lparr>valves = init_valves\<lparr>requests_per_minute := Some 1, requests_per_hour := None,
        sliding_window_limit := Some 5, sliding_window_minutes := None, weekdays_only := False\<rparr>,
      user_requests = [PStr ''u1'' \<mapsto> [0, 100]]\<rparr>
     \<lparr>now = 101, weekday = 0\<rparr> () (Some u1)
   = (Inl TypeError,
      \<lparr>valves = init_valves\<lparr>requests_per_minute := Some 1, requests_per_hour := None,
        sliding_window_limit := Some 5, sliding_window_minutes := None, weekdays_only := False\<rparr>,
       user_requests = [PStr ''u1'' \<mapsto> [0, 100]]\<rparr>)"
proof -
  let ?s = "\<lparr>valves = init_valves\<lparr>requests_per_minute := Some 1, requests_per_hour := None,
        sliding_window_limit := Some 5, sliding_window_minutes := None, weekdays_only := False\<rparr>,
      user_requests = [PStr ''u1'' \<mapsto> [0, 100]]\<rparr>"
  have "inlet ?s \<lparr>now = 101, weekday = 0\<rparr> () (Some u1) = (Inl TypeError, ?s)"
    by (rule threshold_reached_raises_type_error [where r = PerMinute and n = 1 and req = 0])
       (simp_all add: eval_defs spec_defs)
  then show ?thesis
    by (simp add: spec_rule_limit_def count_within_def init_valves_def)
qed

subsection \<open>C5: a rejected request is not recorded\<close>

text \<open>
  Claim C5 says that a rejected call leaves the length of the identity's history
  unchanged and does not alter the stored history. The code prunes before it decides,
  and the pruned list stays stored when the call is rejected: with 1 request per minute
  and 1000 per hour, the calls at 0 and 3590 are allowed; the call at 3600 is rejected,
  and the history of two entries has one entry after it.
\<close>

theorem rejected_history_length_counterexample:
  "inlet \<lparr>valves = init_valves\<lparr>requests_per_minute := Some 1, weekdays_only := False\<rparr>,
      user_requests = Map.empty\<rparr> \<lparr>now = 0, weekday = 0\<rparr> () (Some u1)
   = (Inr (), \<lparr>valves = init_valves\<lparr>requests_per_minute := Some 1, weekdays_only := False\<rparr>,
      user_requests = [PStr ''u1'' \<mapsto> [0]]\<rparr>) \<and>
   inlet \<lparr>valves = init_valves\<lparr>requests_per_minute := Some 1, weekdays_only := False\<rparr>,
      user_requests = [PStr ''u1'' \<mapsto> [0]]\<rparr> \<lparr>now = 3590, weekday = 0\<rparr> () (Some u1)
   = (Inr (), \<lparr>valves = init_valves\<lparr>requests_per_minute := Some 1, weekdays_only := False\<rparr>,
      user_requests = [PStr ''u1'' \<mapsto> [0, 3590]]\<rparr>) \<and>
   inlet \<lparr>valves = init_valves\<lparr>requests_per_minute := Some 1, weekdays_only := False\<rparr>,
      user_requests = [PStr ''u1'' \<mapsto> [0, 3590]]\<rparr> \<lparr>now = 3600, weekday = 0\<rparr> () (Some u1)
   = (Inl RateLimitExceeded,
      \<lparr>valves = init_valves\<lparr>requests_per_minute := Some 1, weekdays_only := False\<rparr>,
      user_requests = [PStr ''u1'' \<mapsto> [3590]]\<rparr>)"
  by (simp add: eval_defs)

text \<open>
  Claim C5 as amended: a rejected call does not append now. After it the identity's
  stored history is the history before the call without the entries that pruning drops
  (those outside the maximum lookback of the active rules), so its length does not
  grow; the histories of the other identities and the valves are as before.
\<close>

theorem rejected_not_logged:
  assumes "inlet self e body (Some u) = (Inl RateLimitExceeded, self')"
  shows "requests_of self' (user_id_of u)
           = filter (within_max_lookback (valves self) (now e)) (requests_of self (user_id_of u)) \<and>
         length (requests_of self' (user_id_of u)) \<le> length (requests_of self (user_id_of u)) \<and>
         (\<forall>k. k \<noteq> user_id_of u \<longrightarrow> user_requests self' k = user_requests self k) \<and>
         valves self' = valves self"
proof -
  let ?uid = "user_id_of u"
  from assms have rl: "rate_limited self e ?uid = (Inr True, self')"
    by (auto simp: inlet_def Let_def split: if_splits prod.splits sum.splits bool.splits
        dest: rate_limited_error)
  then have pr: "prune_requests self e ?uid = (Inr (), self')"
    by (auto simp: rate_limited_def split: prod.splits sum.splits)
  have "requests_of self' ?uid
      = filter (within_max_lookback (valves self) (now e)) (requests_of self ?uid)"
    by (rule prune_requests_requests_of [OF pr])
  moreover have "valves self' = valves self"
    using prune_requests_frame(1) [of self e ?uid] pr by simp
  moreover have "\<forall>k. k \<noteq> ?uid \<longrightarrow> user_requests self' k = user_requests self k"
    using prune_requests_frame(2) [of _ ?uid self e] pr by simp
  ultimately show ?thesis by simp
qed

theorem rejected_not_logged_witness:
  "requests_of (snd (inlet
      \<lparr>valves = init_valves\<lparr>requests_per_minute := Some 1, weekdays_only := False\<rparr>,
       user_requests = [PStr ''u1'' \<mapsto> [0, 3590], PStr ''u2'' \<mapsto> [5]]\<rparr>
      \<lparr>now = 3600, weekday = 0\<rparr> () (Some u1))) (PStr ''u1'') = [3590] \<and>
   requests_of (snd (inlet
      \<lparr>valves = init_valves\<lparr>requests_per_minute := Some 1, weekdays_only := False\<rparr>,
       user_requests = [PStr ''u1'' \<mapsto> [0, 3590], PStr ''u2'' \<mapsto> [5]]\<rparr>
      \<lparr>now = 3600, weekday = 0\<rparr> () (Some u1))) (PStr ''u2'') = [5]"
proof -
  let ?s = "\<lparr>valves = init_valves\<lparr>requests_per_minute := Some 1, weekdays_only := False\<rparr>,
      user_requests = [PStr ''u1'' \<mapsto> [0, 3590], PStr ''u2'' \<mapsto> [5]]\<rparr>"
  let ?e = "\<lparr>now = 3600, weekday = 0\<rparr>"
  let ?s' = "snd (inlet ?s ?e () (Some u1))"
  have "inlet ?s ?e () (Some u1) = (Inl RateLimitExceeded, ?s')"
    by (simp add: eval_defs)
  from rejected_not_logged [OF this]
  have "requests_of ?s' (user_id_of u1)
           = filter (within_max_lookback (valves ?s) (now ?e)) (requests_of ?s (user_id_of u1))"
    and "\<forall>k. k \<noteq> user_id_of u1 \<longrightarrow> user_requests ?s' k = user_requests ?s k"
    by blast+
  then have "requests_of ?s' (PStr ''u1'') = [3590]"
    and "user_requests ?s' (PStr ''u2'') = user_requests ?s (PStr ''u2'')"
    by (simp_all add: user_id_of_def u1_def requests_of_def spec_defs init_valves_def)
  then show ?thesis
    by (simp add: requests_of_def)
qed

subsection \<open>C6: no enforcement at the weekend\<close>

text \<open>
  Claim C6 says that with \<open>weekdays_only\<close> set every call on a Saturday (weekday 5) or a
  Sunday (weekday 6) is allowed and changes nothing. \<^verbatim>\<open>inlet\<close> reads the role of the
  user before it looks at the day: a call with no user record, the default of the
  parameter, raises AttributeError at the weekend as on any day. (The defect is the one
  of claim C3; for a present record \<open>weekend_not_enforced\<close> gives the claim.)
\<close>

theorem weekend_no_user_raises:
  assumes "weekdays_only (valves self)"
    and "weekday e = 5 \<or> weekday e = 6"
  shows "inlet self e body None = (Inl AttributeError, self)"
  by (simp add: inlet_def)

text \<open>
  The failing input: the object of the constructor on a Saturday. The call with no user
  record raises, where the call with a user record is allowed.
\<close>

theorem weekend_no_user_raises_witness:
  "weekdays_only (valves init) \<and>
   inlet init \<lparr>now = 0, weekday = 5\<rparr> () None = (Inl AttributeError, init) \<and>
   inlet init \<lparr>now = 0, weekday = 5\<rparr> () (Some u1) = (Inr (), init)"
proof -
  have w: "weekdays_only (valves init)"
    by (simp add: init_def init_valves_def)
  have "inlet init \<lparr>now = 0, weekday = 5\<rparr> () None = (Inl AttributeError, init)"
    by (rule weekend_no_user_raises [OF w]) simp
  moreover have "inlet init \<lparr>now = 0, weekday = 5\<rparr> () (Some u1) = (Inr (), init)"
    by (simp add: eval_defs)
  ultimately show ?thesis using w by simp
qed

subsection \<open>C7: exempt identities\<close>

text \<open>
  Claim C7 takes an identity to be exempt when its username or email, lower-cased and
  trimmed, or its id as it stands, is listed. The code trims the id too before it looks
  it up: an id with a leading space that is listed with that space is exempt in the
  claim's words and is rate limited by the code.
\<close>

theorem exempt_untrimmed_id_counterexample:
  "spec_exempt_stated (init_valves\<lparr>requests_per_minute := Some 1, exempt_user_ids := ['' u1''],
        weekdays_only := False\<rparr>) [(''id'', PStr '' u1''), (''role'', PStr ''user'')] \<and>
   fst (inlet \<lparr>valves = init_valves\<lparr>requests_per_minute := Some 1, exempt_user_ids := ['' u1''],
        weekdays_only := False\<rparr>,
      user_requests = [PStr '' u1'' \<mapsto> [0]]\<rparr> \<lparr>now = 1, weekday = 0\<rparr> ()
      (Some [(''id'', PStr '' u1''), (''role'', PStr ''user'')])) = Inl RateLimitExceeded"
  by (simp add: eval_defs spec_exempt_stated_def field_in_def strip_def is_space_def)

text \<open>
  Claim C7 as amended: an identity whose username or email, trimmed and lower-cased, or
  whose id, trimmed, is listed, is allowed at every call, whatever the thresholds and
  the history, and the call leaves the object as it was.
\<close>

theorem exempt_always_allowed:
  assumes "spec_exempt (valves self) u"
  shows "inlet self e body (Some u) = (Inr body, self)"
  using spec_exempt_is_exempt [OF assms] by (simp add: inlet_def Let_def)

text \<open>
  The username \<^verbatim>\<open>Admin\<close> matches the entry \<^verbatim>\<open>admin\<close>: the call past the limit is
  allowed and changes nothing, so that every later call meets the same object. The same
  call under a username that is not listed is rejected.
\<close>

theorem exempt_always_allowed_witness:
  "inlet \<lparr>valves = init_valves\<lparr>requests_per_minute := Some 1, exempt_usernames := [''admin''],
        weekdays_only := False\<rparr>,
      user_requests = [PStr ''u1'' \<mapsto> [0, 1, 2]]\<rparr> \<lparr>now = 3, weekday = 0\<rparr> ()
      (Some [(''id'', PStr ''u1''), (''role'', PStr ''user''), (''username'', PStr ''Admin'')])
   = (Inr (), \<lparr>valves = init_valves\<lparr>requests_per_minute := Some 1, exempt_usernames := [''admin''],
        weekdays_only := False\<rparr>,
      user_requests = [PStr ''u1'' \<mapsto> [0, 1, 2]]\<rparr>) \<and>
   fst (inlet \<lparr>valves = init_valves\<lparr>requests_per_minute := Some 1, exempt_usernames := [''admin''],
        weekdays_only := False\<rparr>,
      user_requests = [PStr ''u1'' \<mapsto> [0, 1, 2]]\<rparr> \<lparr>now = 3, weekday = 0\<rparr> ()
      (Some [(''id'', PStr ''u1''), (''role'', PStr ''user''), (''username'', PStr ''Bob'')]))
   = Inl RateLimitExceeded"
proof -
  let ?s = "\<lparr>valves = init_valves\<lparr>requests_per_minute := Some 1, exempt_usernames := [''admin''],
        weekdays_only := False\<rparr>,
      user_requests = [PStr ''u1'' \<mapsto> [0, 1, 2]]\<rparr>"
  let ?e = "\<lparr>now = 3, weekday = 0\<rparr>"
  have "inlet ?s ?e ()
      (Some [(''id'', PStr ''u1''), (''role'', PStr ''user''), (''username'', PStr ''Admin'')])
      = (Inr (), ?s)"
    by (rule exempt_always_allowed)
       (simp add: spec_exempt_def field_in_def init_valves_def lower_def lower_char_def
          strip_def is_space_def)
  moreover have "fst (inlet ?s ?e ()
      (Some [(''id'', PStr ''u1''), (''role'', PStr ''user''), (''username'', PStr ''Bob'')]))
      = Inl RateLimitExceeded"
    by (simp add: eval_defs lower_def lower_char_def strip_def is_space_def)
  ultimately show ?thesis by simp
qed

subsection \<open>C8: the counted history lies within the maximum lookback\<close>

text \<open>
  Claim C8: once \<^verbatim>\<open>prune_requests\<close> has returned, the identity's list is the list
  before it restricted to the instants within the maximum lookback of the active rules
  (the largest of 60, 3600 and \<open>sliding_window_minutes * 60\<close> among the rules that are
  active): every entry left is within it, and every entry older than all the active
  windows is gone. And whenever \<^verbatim>\<open>rate_limited\<close> returns, it has pruned: the list it
  leaves stored is that restricted list, and its answer is the outcome of the three
  checks on that list.
\<close>

theorem counted_within_max_lookback:
  "(prune_requests self e uid = (Inr (), self') \<longrightarrow>
      requests_of self' uid
        = filter (within_max_lookback (valves self) (now e)) (requests_of self uid) \<and>
      (\<forall>req \<in> set (requests_of self' uid). within_max_lookback (valves self) (now e) req)) \<and>
   (rate_limited self e uid = (Inr b, self'') \<longrightarrow>
      prune_requests self e uid = (Inr (), self'') \<and>
      requests_of self'' uid
        = filter (within_max_lookback (valves self) (now e)) (requests_of self uid) \<and>
      (\<forall>req \<in> set (requests_of self'' uid). within_max_lookback (valves self) (now e) req) \<and>
      b = limits_reached (valves self) (now e)
            (filter (within_max_lookback (valves self) (now e)) (requests_of self uid)))"
proof (intro conjI impI)
  assume pr: "prune_requests self e uid = (Inr (), self')"
  show kept: "requests_of self' uid
      = filter (within_max_lookback (valves self) (now e)) (requests_of self uid)"
    by (rule prune_requests_requests_of [OF pr])
  then show "\<forall>req \<in> set (requests_of self' uid). within_max_lookback (valves self) (now e) req"
    by simp
next
  assume rl: "rate_limited self e uid = (Inr b, self'')"
  then show pr: "prune_requests self e uid = (Inr (), self'')"
    by (auto simp: rate_limited_def split: prod.splits sum.splits)
  have v: "valves self'' = valves self"
    using prune_requests_frame(1) [of self e uid] pr by simp
  show kept: "requests_of self'' uid
      = filter (within_max_lookback (valves self) (now e)) (requests_of self uid)"
    by (rule prune_requests_requests_of [OF pr])
  then show "\<forall>req \<in> set (requests_of self'' uid). within_max_lookback (valves self) (now e) req"
    by simp
  from rl pr have "b = limits_reached (valves self'') (now e) (requests_of self'' uid)"
    by (simp add: rate_limited_def)
  with v kept show "b = limits_reached (valves self) (now e)
      (filter (within_max_lookback (valves self) (now e)) (requests_of self uid))"
    by simp
qed

text \<open>
  A sliding window of 3 requests in 1 minute and no other rule: the maximum lookback is
  60. At 61 the three entries at 0 are pruned, the entry at 10 stays, and the answer is
  that of the checks on the pruned list; on the list before pruning the limit would
  have been reached.
\<close>

theorem counted_within_max_lookback_witness:
  "spec_max_lookback (init_valves\<lparr>requests_per_minute := None, requests_per_hour := None,
       sliding_window_limit := Some 3, sliding_window_minutes := Some 1\<rparr>) = Some 60 \<and>
   rate_limited
     \<lparr>valves = init_valves\<lparr>requests_per_minute := None, requests_per_hour := None,
        sliding_window_limit := Some 3, sliding_window_minutes := Some 1\<rparr>,
      user_requests = [PStr ''u1'' \<mapsto> [0, 0, 0, 10]]\<rparr>
     \<lparr>now = 61, weekday = 0\<rparr> (PStr ''u1'')
   = (Inr False,
      \<lparr>valves = init_valves\<lparr>requests_per_minute := None, requests_per_hour := None,
        sliding_window_limit := Some 3, sliding_window_minutes := Some 1\<rparr>,
       user_requests = [PStr ''u1'' \<mapsto> [10]]\<rparr>) \<and>
   limits_reached (init_valves\<lparr>requests_per_minute := None, requests_per_hour := None,
       sliding_window_limit := Some 3, sliding_window_minutes := Some 1\<rparr>) 61 [0, 0, 0, 10]"
proof -
  let ?v = "init_valves\<lparr>requests_per_minute := None, requests_per_hour := None,
        sliding_window_limit := Some 3, sliding_window_minutes := Some 1\<rparr>"
  let ?s = "\<lparr>valves = ?v, user_requests = [PStr ''u1'' \<mapsto> [0, 0, 0, 10]]\<rparr>"
  let ?t = "\<lparr>valves = ?v, user_requests = [PStr ''u1'' \<mapsto> [10]]\<rparr>"
  let ?e = "\<lparr>now = 61, weekday = 0\<rparr>"
  have rl: "rate_limited ?s ?e (PStr ''u1'') = (Inr False, ?t)"
    by (simp add: eval_defs)
  from counted_within_max_lookback [where self = ?s and e = ?e and uid = "PStr ''u1''"
      and b = False and self'' = ?t and self' = ?t] rl
  have kept: "requests_of ?t (PStr ''u1'')
        = filter (within_max_lookback (valves ?s) (now ?e)) (requests_of ?s (PStr ''u1''))"
    and answer: "False = limits_reached (valves ?s) (now ?e)
        (filter (within_max_lookback (valves ?s) (now ?e)) (requests_of ?s (PStr ''u1'')))"
    by blast+
  have look: "spec_max_lookback ?v = Some 60"
    by (simp add: spec_defs init_valves_def)
  have before: "limits_reached ?v 61 [0, 0, 0, 10]"
    by (simp add: limits_reached_def init_valves_def)
  from rl kept answer look before show ?thesis
    by simp
qed

subsection \<open>C9: pruning twice\<close>

text \<open>
  Claim C9: pruning an identity's history a second time at the same instant gives the
  outcome and the object that pruning once gave, and hence the same count within any
  window.
\<close>

theorem prune_requests_idempotent:
  "prune_requests (snd (prune_requests self e uid)) e uid = prune_requests self e uid \<and>
   count_within (now e) w
       (requests_of (snd (prune_requests (snd (prune_requests self e uid)) e uid)) uid)
     = count_within (now e) w (requests_of (snd (prune_requests self e uid)) uid)"
proof -
  have idem: "prune_requests (snd (prune_requests self e uid)) e uid = prune_requests self e uid"
  proof (cases "user_requests self uid")
    case None
    then show ?thesis by (simp add: prune_requests_def)
  next
    case (Some reqs)
    show ?thesis
    proof (cases "prune_list (valves self) (now e) reqs")
      case (Inl err)
      with Some show ?thesis by (simp add: prune_requests_def)
    next
      case (Inr kept)
      from prune_list_idem [OF Inr] Some Inr show ?thesis
        by (simp add: prune_requests_def)
    qed
  qed
  then show ?thesis by simp
qed

theorem prune_requests_idempotent_witness:
  "prune_requests (snd (prune_requests
      \<lparr>valves = init_valves, user_requests = [PStr ''u1'' \<mapsto> [0, 100, 3000, 3700]]\<rparr>
      \<lparr>now = 3700, weekday = 0\<rparr> (PStr ''u1''))) \<lparr>now = 3700, weekday = 0\<rparr> (PStr ''u1'')
   = (Inr (), \<lparr>valves = init_valves, user_requests = [PStr ''u1'' \<mapsto> [3000, 3700]]\<rparr>)"
proof -
  let ?s = "\<lparr>valves = init_valves, user_requests = [PStr ''u1'' \<mapsto> [0, 100, 3000, 3700]]\<rparr>"
  let ?e = "\<lparr>now = 3700, weekday = 0\<rparr>"
  have once: "prune_requests ?s ?e (PStr ''u1'')
      = (Inr (), \<lparr>valves = init_valves, user_requests = [PStr ''u1'' \<mapsto> [3000, 3700]]\<rparr>)"
    by (simp add: prune_requests_def keep_request_def init_valves_def)
  have "prune_requests (snd (prune_requests ?s ?e (PStr ''u1''))) ?e (PStr ''u1'')
      = prune_requests ?s ?e (PStr ''u1'')"
    using prune_requests_idempotent [of ?s ?e "PStr ''u1''" 60] by (rule conjunct1)
  then show ?thesis
    by (simp only: once)
qed

subsection \<open>C10: roles other than user\<close>

text \<open>
  Claim C10: for a user record whose role is absent (it then counts as \<^verbatim>\<open>admin\<close>) or
  is anything but \<^verbatim>\<open>user\<close>, \<^verbatim>\<open>inlet\<close> returns the body and leaves the object as it
  was, in every configuration and whatever the history; it does not raise.
\<close>

theorem other_roles_bypass:
  assumes "map_of u ''role'' \<noteq> Some (PStr ''user'')"
  shows "inlet self e body (Some u) = (Inr body, self)"
  using assms by (auto simp: inlet_def dict_get_def split: option.splits)

text \<open>
  A record with no role and a record with the role \<^verbatim>\<open>admin\<close>, both past the limit of
  1 request per minute on a Monday.
\<close>

theorem other_roles_bypass_witness:
  "inlet \<lparr>valves = init_valves\<lparr>requests_per_minute := Some 1\<rparr>,
      user_requests = [PStr ''u1'' \<mapsto> [0, 1, 2]]\<rparr> \<lparr>now = 3, weekday = 0\<rparr> ()
      (Some [(''id'', PStr ''u1'')])
   = (Inr (), \<lparr>valves = init_valves\<lparr>requests_per_minute := Some 1\<rparr>,
      user_requests = [PStr ''u1'' \<mapsto> [0, 1, 2]]\<rparr>) \<and>
   inlet \<lparr>valves = init_valves\<lparr>requests_per_minute := Some 1\<rparr>,
      user_requests = [PStr ''u1'' \<mapsto> [0, 1, 2]]\<rparr> \<lparr>now = 3, weekday = 0\<rparr> ()
      (Some [(''id'', PStr ''u1''), (''role'', PStr ''admin'')])
   = (Inr (), \<lparr>valves = init_valves\<lparr>requests_per_minute := Some 1\<rparr>,
      user_requests = [PStr ''u1'' \<mapsto> [0, 1, 2]]\<rparr>)"
proof -
  let ?s = "\<lparr>valves = init_valves\<lparr>requests_per_minute := Some 1\<rparr>,
      user_requests = [PStr ''u1'' \<mapsto> [0, 1, 2]]\<rparr>"
  let ?e = "\<lparr>now = 3, weekday = 0\<rparr>"
  have "inlet ?s ?e () (Some [(''id'', PStr ''u1'')]) = (Inr (), ?s)"
    by (rule other_roles_bypass) simp
  moreover have "inlet ?s ?e () (Some [(''id'', PStr ''u1''), (''role'', PStr ''admin'')])
      = (Inr (), ?s)"
    by (rule other_roles_bypass) simp
  ultimately show ?thesis by simp
qed

end
